theory Spec2Isabelle
  imports Main "HOL-Library.Sublist"
begin

section \<open>Session store (src/utils/browser-session.ts)\<close>

text \<open>
  The store is one JSON file holding one \<open>StoredBrowserSession\<close>. The file system is
  modelled by the content of that file: \<open>None\<close> when the file is absent (or unreadable,
  which \<open>loadBrowserSession\<close> maps to \<open>null\<close> as well), \<open>Some s\<close> when it holds the
  record \<open>s\<close>. Writes are taken to succeed. The field \<open>id\<close> of the source is named
  \<open>id_str\<close>, since \<open>id\<close> is the identity function of HOL.
\<close>

record StoredBrowserSession =
  id_str :: string
  cdpUrl :: string
  createdAt :: string

type_synonym session_file = "StoredBrowserSession option"

definition saveBrowserSession :: "StoredBrowserSession \<Rightarrow> session_file \<Rightarrow> session_file" where
  "saveBrowserSession session file = Some session"

definition loadBrowserSession :: "session_file \<Rightarrow> StoredBrowserSession option" where
  "loadBrowserSession file = file"

definition clearBrowserSession :: "session_file \<Rightarrow> session_file" where
  "clearBrowserSession file = None"

text \<open>
  A JavaScript string is truthy iff it is not empty; an absent optional argument
  (\<open>undefined\<close>) is falsy.
\<close>

fun truthy_opt :: "string option \<Rightarrow> bool" where
  "truthy_opt None = False"
| "truthy_opt (Some s) = (s \<noteq> [])"

datatype session_error = NoActiveSession

definition getSessionId :: "string option \<Rightarrow> session_file \<Rightarrow> session_error + string" where
  "getSessionId overrideId file =
     (if truthy_opt overrideId then Inr (the overrideId)
      else case loadBrowserSession file of
             Some stored \<Rightarrow> Inr (id_str stored)
           | None \<Rightarrow> Inl NoActiveSession)"

section \<open>Launching a session (src/commands/browser.ts, handleBrowserLaunch)\<close>

text \<open>
  What \<open>app.browser(args)\<close> can do: resolve with \<open>success: true\<close> and the new session's
  id, CDP URL and optional live view URL; resolve with \<open>success: false\<close>; or reject.
  The result of the handler is the session file afterwards and the exit code, \<open>None\<close>
  when the handler returns without calling \<open>process.exit\<close>.
\<close>

datatype browser_reply =
    LaunchOk string string "string option"
  | LaunchFailed "string option"
  | LaunchThrew string

fun handleBrowserLaunch ::
  "browser_reply \<Rightarrow> string \<Rightarrow> session_file \<Rightarrow> session_file \<times> int option" where
  "handleBrowserLaunch (LaunchOk i c live) now file =
     (saveBrowserSession \<lparr>id_str = i, cdpUrl = c, createdAt = now\<rparr> file, None)"
| "handleBrowserLaunch (LaunchFailed e) now file = (file, Some 1)"
| "handleBrowserLaunch (LaunchThrew m) now file = (file, Some 1)"

section \<open>Strings and regular expressions of the JavaScript runtime\<close>

text \<open>
  Strings are lists of \<open>char\<close>. \<open>toLowerCase\<close> maps the letters \<open>A\<close> to \<open>Z\<close> to
  \<open>a\<close> to \<open>z\<close> and leaves every other character as it is. A regular expression with
  the flag \<open>i\<close> compares characters after canonicalisation, which upper-cases the
  letters \<open>a\<close> to \<open>z\<close>. The dot matches every character but a line terminator.
\<close>

definition toLowerCase_char :: "char \<Rightarrow> char" where
  "toLowerCase_char c =
     (let n = (of_char c :: nat) in if 65 \<le> n \<and> n \<le> 90 then char_of (n + 32) else c)"

definition toLowerCase :: "string \<Rightarrow> string" where
  "toLowerCase s = map toLowerCase_char s"

definition canonicalize :: "char \<Rightarrow> char" where
  "canonicalize c =
     (let n = (of_char c :: nat) in if 97 \<le> n \<and> n \<le> 122 then char_of (n - 32) else c)"

definition isLineTerminator :: "char \<Rightarrow> bool" where
  "isLineTerminator c = (c = CHR 0x0A \<or> c = CHR 0x0D)"

text \<open>
  The patterns of this program are alternatives of sequences of literal characters and
  \<open>.*\<close>. \<open>match_at p s\<close> holds when \<open>p\<close> matches a prefix of \<open>s\<close>; \<open>regex_test\<close> is
  \<open>RegExp.prototype.test\<close>: it tries every start position from the left, and at each
  position the alternatives in order.
\<close>

datatype rx_item = Chr char | AnyStar

fun match_at :: "rx_item list \<Rightarrow> string \<Rightarrow> bool" where
  "match_at [] s = True"
| "match_at (Chr p # r) [] = False"
| "match_at (Chr p # r) (c # s) = (canonicalize c = canonicalize p \<and> match_at r s)"
| "match_at (AnyStar # r) [] = match_at r []"
| "match_at (AnyStar # r) (c # s) =
     ((\<not> isLineTerminator c \<and> match_at (AnyStar # r) s) \<or> match_at r (c # s))"

fun regex_test :: "rx_item list list \<Rightarrow> string \<Rightarrow> bool" where
  "regex_test alts [] = list_ex (\<lambda>p. match_at p []) alts"
| "regex_test alts (c # s) = (list_ex (\<lambda>p. match_at p (c # s)) alts \<or> regex_test alts s)"

section \<open>Session expiry (src/commands/browser.ts, isSessionExpiredError)\<close>

text \<open>
  The pattern \<open>/destroyed|expired|not found|gone|session.*closed/i\<close>.
\<close>

definition expired_pattern :: "rx_item list list" where
  "expired_pattern =
     [map Chr ''destroyed'', map Chr ''expired'', map Chr ''not found'', map Chr ''gone'',
      map Chr ''session'' @ [AnyStar] @ map Chr ''closed'']"

text \<open>
  A value caught from a rejected remote call: an \<open>Error\<close> object with its message, or
  another value with its string conversion \<open>String(error)\<close>; each with the value of its
  \<open>status\<close> property when that is a number. (\<open>null\<close> and \<open>undefined\<close> are left out:
  the client library rejects with objects.)
\<close>

datatype js_thrown = ErrorObject string "int option" | OtherValue string "int option"

fun thrown_status :: "js_thrown \<Rightarrow> int option" where
  "thrown_status (ErrorObject m st) = st"
| "thrown_status (OtherValue m st) = st"

fun thrown_text :: "js_thrown \<Rightarrow> string" where
  "thrown_text (ErrorObject m st) = m"
| "thrown_text (OtherValue m st) = m"

definition isSessionExpiredError :: "js_thrown \<Rightarrow> bool" where
  "isSessionExpiredError error =
     (let msg = toLowerCase (thrown_text error);
          status = thrown_status error
      in if status = Some 410 \<or> status = Some 404 then True
         else regex_test expired_pattern msg)"

section \<open>Executing code in a session (src/commands/browser.ts, handleBrowserExecute)\<close>

text \<open>
  The branch for the languages python and node, which calls the remote API (the bash
  branch runs a local process and never reaches the code below). What
  \<open>app.browserExecute\<close> can do: resolve with \<open>success\<close>, an optional \<open>error\<close> and an
  optional \<open>result\<close>, or reject with a thrown value.

  The handler's effects are the session file afterwards, the lines written to stderr
  (one entry for each \<open>console.error\<close> or \<open>process.stderr.write\<close>), the exit code (\<open>None\<close>
  when \<open>process.exit\<close> is not called) and the session id the remote call was made with
  (\<open>None\<close> when no call was made). The primary output, written by \<open>writeOutput\<close>, is
  left out.
\<close>

datatype execute_reply =
    ExecResolved bool "string option" "string option"
  | ExecRejected js_thrown

record execute_effects =
  file_after :: session_file
  stderr :: "string list"
  exit_code :: "int option"
  called_with :: "string option"

definition no_session_message :: string where
  "no_session_message =
     ''No active browser session. Launch one with: firecrawl browser launch'' @ [CHR 0x0A] @
     ''Or specify a session ID with: --session <id>''"

definition expired_message :: "string \<Rightarrow> string" where
  "expired_message sessionId =
     ''Error: Session '' @ sessionId @ '' has expired or been destroyed.'' @ [CHR 0x0A] @
     ''The session may have exceeded its TTL or been closed.'' @ [CHR 0x0A] @
     ''Start a new session with: firecrawl browser launch''"

text \<open>\<open>options.session || loadBrowserSession()?.id || 'unknown'\<close>\<close>

definition reported_session_id :: "string option \<Rightarrow> session_file \<Rightarrow> string" where
  "reported_session_id session file =
     (if truthy_opt session then the session
      else case loadBrowserSession file of
             Some stored \<Rightarrow> (if id_str stored \<noteq> [] then id_str stored else ''unknown'')
           | None \<Rightarrow> ''unknown'')"

text \<open>The \<open>catch\<close> block of the handler.\<close>

definition execute_catch ::
  "string option \<Rightarrow> js_thrown \<Rightarrow> string option \<Rightarrow> session_file \<Rightarrow> execute_effects" where
  "execute_catch session error called file =
     (if isSessionExpiredError error then
        \<lparr>file_after =
           (if loadBrowserSession file \<noteq> None \<and> \<not> truthy_opt session
            then clearBrowserSession file else file),
         stderr = [expired_message (reported_session_id session file)],
         exit_code = Some 1,
         called_with = called\<rparr>
      else
        \<lparr>file_after = file,
         stderr = [''Error: '' @
            (case error of ErrorObject m st \<Rightarrow> m | OtherValue m st \<Rightarrow> ''Unknown error occurred'')],
         exit_code = Some 1,
         called_with = called\<rparr>)"

definition handleBrowserExecute :: "string option \<Rightarrow> execute_reply \<Rightarrow> session_file \<Rightarrow> execute_effects" where
  "handleBrowserExecute session reply file =
     (case getSessionId session file of
        Inl NoActiveSession \<Rightarrow> execute_catch session (ErrorObject no_session_message None) None file
      | Inr sessionId \<Rightarrow>
          (case reply of
             ExecRejected error \<Rightarrow> execute_catch session error (Some sessionId) file
           | ExecResolved success err result \<Rightarrow>
               if \<not> success then
                 \<lparr>file_after = file,
                  stderr = [''Error: '' @ (if truthy_opt err then the err else ''Unknown error'')],
                  exit_code = Some 1, called_with = Some sessionId\<rparr>
               else
                 \<lparr>file_after = file,
                  stderr = (if truthy_opt err then [''Code error: '' @ the err @ [CHR 0x0A]] else []),
                  exit_code = None, called_with = Some sessionId\<rparr>))"

section \<open>Local bash execution (src/commands/browser.ts, executeBashLocally)\<close>

text \<open>
  \<open>String.prototype.startsWith\<close>, \<open>includes\<close>, \<open>split(' ')\<close> and \<open>Array.prototype.join(' ')\<close>
  and \<open>splice(idx, 0, ...items)\<close>. Splitting the empty string gives one empty field.
\<close>

definition startsWith :: "string \<Rightarrow> string \<Rightarrow> bool" where
  "startsWith s p = prefix p s"


fun split_space :: "string \<Rightarrow> string list" where
  "split_space [] = [[]]"
| "split_space (c # s) =
     (if c = CHR '' '' then [] # split_space s
      else case split_space s of
             w # ws \<Rightarrow> (c # w) # ws
           | [] \<Rightarrow> [[c]])"




text \<open>
  The specification's wording of the same step, for comparison with the code: the flag
  goes right after the first two whitespace-separated words. \<open>inject_after_two_words\<close>
  skips a word, a run of whitespace and a second word, and inserts the flag there.
\<close>

definition isWhitespace :: "char \<Rightarrow> bool" where
  "isWhitespace c = (c = CHR '' '' \<or> c = CHR 0x09 \<or> c = CHR 0x0A \<or> c = CHR 0x0B
     \<or> c = CHR 0x0C \<or> c = CHR 0x0D)"


section \<open>Bulk scrape orchestrator (src/commands/scrape.ts, handleAllScrapeCommand)\<close>

subsection \<open>Options and numbers\<close>

text \<open>
  The fields of \<open>ScrapeOptions\<close> and \<open>AllScrapeOptions\<close> that the orchestrator reads
  itself; an optional field is \<open>None\<close> when \<open>undefined\<close>. A format is its name.
\<close>

record ScrapeOptions =
  formats :: "string list option"
  screenshot :: "bool option"
  fullPageScreenshot :: "bool option"
  onlyMainContent :: "bool option"

record AllScrapeOptions =
  limit :: "int option"
  yes :: "bool option"
  includePaths :: "string list option"
  excludePaths :: "string list option"

fun truthy_bool :: "bool option \<Rightarrow> bool" where
  "truthy_bool None = False"
| "truthy_bool (Some b) = b"

text \<open>Decimal rendering of a number in a template literal.\<close>

function show_nat :: "nat \<Rightarrow> string" where
  "show_nat n =
     (if n < 10 then [char_of (48 + n)] else show_nat (n div 10) @ [char_of (48 + n mod 10)])"
  by pat_completeness auto
termination
  by (relation "measure (\<lambda>n. n)") auto

declare show_nat.simps [simp del]

definition show_int :: "int \<Rightarrow> string" where
  "show_int i = (if i < 0 then ''-'' @ show_nat (nat (- i)) else show_nat (nat i))"

text \<open>
  \<open>parseInt(s, 10)\<close>: leading white space is skipped, then an optional sign, then the
  longest run of decimal digits; \<open>None\<close> is \<open>NaN\<close>, when there is no digit.
\<close>

definition isStrWhiteSpace :: "char \<Rightarrow> bool" where
  "isStrWhiteSpace c = (c = CHR '' '' \<or> c = CHR 0x09 \<or> c = CHR 0x0A \<or> c = CHR 0x0B
     \<or> c = CHR 0x0C \<or> c = CHR 0x0D \<or> c = CHR 0xA0)"

definition isDigit :: "char \<Rightarrow> bool" where
  "isDigit c = (48 \<le> (of_char c :: nat) \<and> (of_char c :: nat) \<le> 57)"

definition digits_value :: "string \<Rightarrow> nat" where
  "digits_value ds = foldl (\<lambda>a c. 10 * a + (of_char c - 48)) 0 ds"

definition parseInt :: "string \<Rightarrow> int option" where
  "parseInt s =
     (let s1 = dropWhile isStrWhiteSpace s;
          neg = (s1 \<noteq> [] \<and> hd s1 = CHR ''-'');
          s2 = (if s1 \<noteq> [] \<and> (hd s1 = CHR ''-'' \<or> hd s1 = CHR ''+'') then tl s1 else s1);
          ds = takeWhile isDigit s2
      in if ds = [] then None
         else Some (if neg then - int (digits_value ds) else int (digits_value ds)))"

subsection \<open>Wizard or flags\<close>

text \<open>
  \<open>hasExplicitFlags\<close>, as a truth value. An array is truthy even when empty, so the
  clause on the formats holds iff the list is present, not empty, and its first entry
  is not \<open>markdown\<close>.
\<close>

definition hasExplicitFlags :: "ScrapeOptions \<Rightarrow> AllScrapeOptions \<Rightarrow> bool" where
  "hasExplicitFlags options allOptions =
     (truthy_bool (yes allOptions)
      \<or> limit allOptions \<noteq> None
      \<or> includePaths allOptions \<noteq> None
      \<or> excludePaths allOptions \<noteq> None
      \<or> (case formats options of
            None \<Rightarrow> False
          | Some fs \<Rightarrow> length fs > 0 \<and> hd fs \<noteq> ''markdown'')
      \<or> truthy_bool (screenshot options)
      \<or> truthy_bool (fullPageScreenshot options)
      \<or> truthy_bool (onlyMainContent options))"

definition enters_wizard :: "ScrapeOptions \<Rightarrow> AllScrapeOptions \<Rightarrow> bool \<Rightarrow> bool" where
  "enters_wizard options allOptions isTTY = (\<not> hasExplicitFlags options allOptions \<and> isTTY)"

subsection \<open>Path filters given as flags\<close>

text \<open>
  \<open>new URL(url).pathname\<close> belongs to the runtime: \<open>pathname\<close> is a parameter, \<open>None\<close>
  where the constructor throws. The two callbacks passed to \<open>urls.filter\<close>:
\<close>

definition include_keeps :: "(string \<Rightarrow> string option) \<Rightarrow> string list \<Rightarrow> string \<Rightarrow> bool" where
  "include_keeps pathname incl url =
     (case pathname url of
        Some p \<Rightarrow> list_ex (\<lambda>pre. startsWith p pre) incl
      | None \<Rightarrow> False)"

definition exclude_keeps :: "(string \<Rightarrow> string option) \<Rightarrow> string list \<Rightarrow> string \<Rightarrow> bool" where
  "exclude_keeps pathname excl url =
     (case pathname url of
        Some p \<Rightarrow> \<not> list_ex (\<lambda>pre. startsWith p pre) excl
      | None \<Rightarrow> True)"

definition apply_flag_filters ::
  "(string \<Rightarrow> string option) \<Rightarrow> string list option \<Rightarrow> string list option
     \<Rightarrow> string list \<Rightarrow> string list" where
  "apply_flag_filters pathname incl excl urls =
     (let urls1 = (case incl of
                     Some inc \<Rightarrow> if length inc > 0 then filter (include_keeps pathname inc) urls else urls
                   | None \<Rightarrow> urls);
          urls2 = (case excl of
                     Some exc \<Rightarrow> if length exc > 0 then filter (exclude_keeps pathname exc) urls1 else urls1
                   | None \<Rightarrow> urls1)
      in urls2)"

text \<open>The prefixes of an optional list: none when the option was not passed.\<close>

fun given :: "string list option \<Rightarrow> string list" where
  "given None = []"
| "given (Some ps) = ps"

subsection \<open>The worker pool\<close>

text \<open>
  The execution phase runs on one event loop. A logical worker is one call of
  \<open>runWorker\<close>; it is suspended while its \<open>executeScrape\<close> call is in flight
  (\<open>Pending\<close>, with the URL), or between the answer to that call and its next loop test
  (\<open>Resuming\<close>: \<open>processUrl\<close> may await the download of a screenshot, and
  \<open>await processUrl(...)\<close> resumes \<open>runWorker\<close> in a later turn), or it has left its loop
  (\<open>Finished\<close>).

  The shared state is the cursor \<open>urlIndex\<close> and the two counters. \<open>attempts\<close> records
  the URLs passed to \<open>executeScrape\<close>, in the order of the calls.
\<close>

datatype worker = Pending string | Resuming | Finished

fun is_pending :: "worker \<Rightarrow> bool" where
  "is_pending (Pending u) = True"
| "is_pending Resuming = False"
| "is_pending Finished = False"

record pool =
  urls :: "string list"
  urlIndex :: nat
  workers :: "worker list"
  attempts :: "string list"
  completedCount :: nat
  errorCount :: nat

text \<open>
  One turn of worker \<open>w\<close> from its loop test: \<open>while (urlIndex < urls.length)\<close>, then
  \<open>urls[urlIndex++]\<close> and the call of \<open>executeScrape\<close>, all without an \<open>await\<close> in
  between, so a single step of the model.
\<close>

definition loop_head :: "nat \<Rightarrow> pool \<Rightarrow> pool" where
  "loop_head w p =
     (if urlIndex p < length (urls p) then
        p\<lparr>urlIndex := urlIndex p + 1,
          workers := (workers p)[w := Pending (urls p ! urlIndex p)],
          attempts := attempts p @ [urls p ! urlIndex p]\<rparr>
      else p\<lparr>workers := (workers p)[w := Finished]\<rparr>)"

text \<open>
  \<open>Array.from({ length: n }, () => runWorker())\<close>: the calls are made one after the other,
  and each runs to its first \<open>await\<close>.
\<close>

definition start_worker :: "pool \<Rightarrow> pool" where
  "start_worker p = loop_head (length (workers p)) (p\<lparr>workers := workers p @ [Resuming]\<rparr>)"

definition initial_pool :: "string list \<Rightarrow> nat \<Rightarrow> pool" where
  "initial_pool us maxConcurrency =
     (start_worker ^^ (min maxConcurrency (length us)))
       \<lparr>urls = us, urlIndex = 0, workers = [], attempts = [],
        completedCount = 0, errorCount = 0\<rparr>"

text \<open>
  What the event loop can deliver: the answer to the scrape of worker \<open>w\<close> (successful or
  not; \<open>executeScrape\<close> turns a rejection into \<open>success: false\<close>), on which \<open>processUrl\<close>
  counts the completion and the error; or the resumption of worker \<open>w\<close> at its loop
  test. An event that is not enabled gives \<open>None\<close>.
\<close>

datatype event = ScrapeSettled nat bool | Resumed nat

fun step :: "event \<Rightarrow> pool \<Rightarrow> pool option" where
  "step (ScrapeSettled w ok) p =
     (if w < length (workers p) \<and> is_pending (workers p ! w) then
        Some (p\<lparr>workers := (workers p)[w := Resuming],
                completedCount := completedCount p + 1,
                errorCount := (if ok then errorCount p else errorCount p + 1)\<rparr>)
      else None)"
| "step (Resumed w) p =
     (if w < length (workers p) \<and> workers p ! w = Resuming then Some (loop_head w p)
      else None)"

fun run :: "event list \<Rightarrow> pool \<Rightarrow> pool option" where
  "run [] p = Some p"
| "run (e # es) p = (case step e p of None \<Rightarrow> None | Some p' \<Rightarrow> run es p')"

text \<open>\<open>Promise.all(workers)\<close> resolves when every worker has left its loop.\<close>

definition finished :: "pool \<Rightarrow> bool" where
  "finished p = list_all (\<lambda>w. w = Finished) (workers p)"


text \<open>
  \<open>status.concurrency?.max || urls.length\<close>; the cap reported by the API is a count.
\<close>

definition maxConcurrency_of :: "nat option \<Rightarrow> nat \<Rightarrow> nat" where
  "maxConcurrency_of concurrency_max n =
     (case concurrency_max of
        Some m \<Rightarrow> if m \<noteq> 0 then m else n
      | None \<Rightarrow> n)"





subsection \<open>The phases of handleAllScrapeCommand\<close>

text \<open>
  What the orchestrator gets from outside: the result of \<open>executeMap\<close> (with the URLs
  of \<open>data.links\<close>), whether stdin is a terminal, the outcome of the interactive wizard,
  the runtime's URL parser, the result of \<open>getStatus\<close>, the trimmed answer that \<open>ask\<close>
  returns, the runtime's \<open>toLocaleString\<close>, and the order in which the event loop
  delivers the answers of the scrapes.
\<close>

record map_result =
  map_success :: bool
  map_links :: "string list option"
  map_error :: "string option"

record status_reply =
  credits_remaining :: "int option"
  concurrency_max :: "nat option"

record orchestrator_env =
  mapResult :: map_result
  stdin_isTTY :: bool
  runWizard :: "string list \<Rightarrow> ScrapeOptions \<Rightarrow> AllScrapeOptions
                  \<Rightarrow> ScrapeOptions \<times> AllScrapeOptions \<times> string list"
  url_pathname :: "string \<Rightarrow> string option"
  getStatus :: status_reply
  ask_answer :: string
  toLocaleString :: "int \<Rightarrow> string"
  schedule :: "event list"

text \<open>
  The effects of a run: the exit code passed to \<open>process.exit\<close> (\<open>None\<close> when the
  function returns), what the orchestrator writes to stderr (one entry for each
  \<open>console.error\<close> or \<open>process.stderr.write\<close>; the progress line of each URL, written by
  \<open>processUrl\<close>, is left out), and the calls of \<open>executeScrape\<close>. A phase either ends
  the run, with an exit code and the lines so far (\<open>Inl\<close>), or goes on (\<open>Inr\<close>).
\<close>

record run_effects =
  exit_status :: "int option"
  err_lines :: "string list"
  scrape_calls :: "string list"

text \<open>A process that ends without \<open>process.exit\<close> has the exit code 0.\<close>

definition process_exit_code :: "run_effects \<Rightarrow> int" where
  "process_exit_code r = (case exit_status r of Some c \<Rightarrow> c | None \<Rightarrow> 0)"

text \<open>Map phase, up to \<open>Found ... pages\<close>.\<close>

definition map_phase :: "orchestrator_env \<Rightarrow> string \<Rightarrow> (int \<times> string list) + (string list \<times> string list)" where
  "map_phase env siteUrl =
     (let lines = [''Mapping '' @ siteUrl @ ''...'' @ [CHR 0x0A]] in
      if \<not> map_success (mapResult env) \<or> map_links (mapResult env) = None then
        Inl (1, lines @ [''Error mapping site: '' @
               (case map_error (mapResult env) of Some e \<Rightarrow> e | None \<Rightarrow> ''undefined'')])
      else
        let found = the (map_links (mapResult env)) in
        if length found = 0 then Inl (1, lines @ [''No URLs found on site.''])
        else Inr (found, lines @ [''Found '' @ show_nat (length found) @ '' pages on '' @ siteUrl
                                   @ [CHR 0x0A]]))"

text \<open>Filter phase: the wizard, or the filters given as flags.\<close>

definition filter_phase ::
  "orchestrator_env \<Rightarrow> ScrapeOptions \<Rightarrow> AllScrapeOptions \<Rightarrow> string list \<Rightarrow> string list" where
  "filter_phase env options allOptions found =
     (if enters_wizard options allOptions (stdin_isTTY env)
      then snd (snd (runWizard env found options allOptions))
      else apply_flag_filters (url_pathname env)
             (includePaths allOptions) (excludePaths allOptions) found)"

text \<open>\<open>if (limit && limit > 0) urls = urls.slice(0, limit)\<close>\<close>

definition apply_limit :: "int option \<Rightarrow> string list \<Rightarrow> string list" where
  "apply_limit lim us =
     (case lim of
        Some l \<Rightarrow> if l \<noteq> 0 \<and> l > 0 then take (nat l) us else us
      | None \<Rightarrow> us)"

text \<open>The URLs selected for scraping: map, filter, the check for an empty list, the limit.\<close>

definition selected_urls ::
  "orchestrator_env \<Rightarrow> string \<Rightarrow> ScrapeOptions \<Rightarrow> AllScrapeOptions
     \<Rightarrow> (int \<times> string list) + (string list \<times> string list)" where
  "selected_urls env siteUrl options allOptions =
     (case map_phase env siteUrl of
        Inl stop \<Rightarrow> Inl stop
      | Inr (found, lines) \<Rightarrow>
          let us = filter_phase env options allOptions found in
          if length us = 0 then Inl (1, lines @ [''No URLs matched after filtering.''])
          else Inr (apply_limit (limit allOptions) us, lines))"

text \<open>\<open>status.credits\<close> is present and \<open>creditsNeeded > remaining\<close>.\<close>

definition credits_short :: "orchestrator_env \<Rightarrow> string list \<Rightarrow> bool" where
  "credits_short env us =
     (case credits_remaining (getStatus env) of
        Some remaining \<Rightarrow> int (length us) > remaining
      | None \<Rightarrow> False)"

text \<open>
  Preflight phase on the selected URLs: the credit check, then the confirmation. It
  gives the confirmed URLs and the concurrency cap, which is computed before the
  confirmation.
\<close>

definition preflight_phase ::
  "orchestrator_env \<Rightarrow> AllScrapeOptions \<Rightarrow> string list \<Rightarrow> string list
     \<Rightarrow> (int \<times> string list) + (string list \<times> nat \<times> string list)" where
  "preflight_phase env allOptions us lines =
     (let status = getStatus env;
          maxConcurrency = maxConcurrency_of (concurrency_max status) (length us)
      in
      if credits_short env us then
        Inl (1, lines @ [''Error: Not enough credits. Need '' @ show_nat (length us) @ '', have ''
                  @ show_int (the (credits_remaining status)) @ ''.''])
      else if \<not> truthy_bool (yes allOptions) then
        (let creditsMsg = (case credits_remaining status of
                             Some remaining \<Rightarrow> '', '' @ show_nat (length us) @ '' credits (''
                                 @ toLocaleString env remaining @ '' remaining)''
                           | None \<Rightarrow> []);
             lines1 = lines @ [[CHR 0x0A] @ ''Scrape '' @ show_nat (length us) @ '' pages''
                  @ creditsMsg @ '', '' @ show_nat maxConcurrency @ '' at a time.'' @ [CHR 0x0A]];
             answer = ask_answer env;
             asNumber = parseInt answer
         in
         if asNumber \<noteq> None \<and> the asNumber > 0 then
           (let us1 = take (nat (the asNumber)) us in
            Inr (us1, maxConcurrency,
                 lines1 @ [''Limiting to '' @ show_nat (length us1) @ '' pages.'' @ [CHR 0x0A]]))
         else if toLowerCase answer \<noteq> ''y'' then
           Inl (0, lines1 @ [''Aborted.'' @ [CHR 0x0A]])
         else Inr (us, maxConcurrency, lines1))
      else Inr (us, maxConcurrency, lines))"

text \<open>The summary after \<open>Promise.all\<close>, and the exit code of a run in which every URL failed.\<close>

definition summary_phase :: "pool \<Rightarrow> string list \<Rightarrow> run_effects" where
  "summary_phase p lines =
     (let total = length (urls p) in
      \<lparr>exit_status = (if errorCount p = total then Some 1 else None),
       err_lines = lines
         @ [[CHR 0x0A] @ ''Completed: '' @ show_nat (completedCount p - errorCount p) @ ''/''
              @ show_nat total @ '' succeeded'']
         @ (if errorCount p > 0 then ['', '' @ show_nat (errorCount p) @ '' failed''] else [])
         @ [[CHR 0x0A]],
       scrape_calls = attempts p\<rparr>)"

text \<open>The line written before the pool starts.\<close>

definition scraping_line :: "orchestrator_env \<Rightarrow> AllScrapeOptions \<Rightarrow> nat \<Rightarrow> nat \<Rightarrow> string" where
  "scraping_line env allOptions n maxConcurrency =
     ''Scraping '' @ show_nat n
       @ (if limit allOptions \<noteq> None \<and> limit allOptions \<noteq> Some 0
          then '' of '' @ show_nat (length (the (map_links (mapResult env))))
          else [])
       @ '' pages ('' @ show_nat maxConcurrency @ '' at a time)...'' @ [CHR 0x0A]"

text \<open>
  The whole command. The result is \<open>None\<close> when \<open>schedule env\<close> is not a run of the pool
  to the state where all workers have returned.
\<close>

definition handleAllScrapeCommand ::
  "orchestrator_env \<Rightarrow> string \<Rightarrow> ScrapeOptions \<Rightarrow> AllScrapeOptions \<Rightarrow> run_effects option" where
  "handleAllScrapeCommand env siteUrl options allOptions =
     (case selected_urls env siteUrl options allOptions of
        Inl (code, lines) \<Rightarrow> Some \<lparr>exit_status = Some code, err_lines = lines, scrape_calls = []\<rparr>
      | Inr (us, lines) \<Rightarrow>
          (case preflight_phase env allOptions us lines of
             Inl (code, lines1) \<Rightarrow>
               Some \<lparr>exit_status = Some code, err_lines = lines1, scrape_calls = []\<rparr>
           | Inr (confirmed, maxConcurrency, lines1) \<Rightarrow>
               (case run (schedule env) (initial_pool confirmed maxConcurrency) of
                  None \<Rightarrow> None
                | Some p \<Rightarrow>
                    if finished p
                    then Some (summary_phase p
                           (lines1 @ [scraping_line env allOptions (length confirmed) maxConcurrency]))
                    else None)))"



subsection \<open>An example run\<close>

text \<open>
  Three pages, thirty credits, two scrapes at a time, no flags and no terminal; the
  user answers \<open>y\<close>; the scrape of the second page fails.
\<close>

definition example_env :: orchestrator_env where
  "example_env =
     \<lparr>mapResult = \<lparr>map_success = True,
                   map_links = Some [''https://h/a'', ''https://h/b'', ''https://h/c''],
                   map_error = None\<rparr>,
      stdin_isTTY = False,
      runWizard = (\<lambda>us opts all. (opts, all, us)),
      url_pathname = (\<lambda>u. Some (drop 9 u)),
      getStatus = \<lparr>credits_remaining = Some 30, concurrency_max = Some 2\<rparr>,
      ask_answer = ''y'',
      toLocaleString = show_int,
      schedule = [ScrapeSettled 1 False, Resumed 1, ScrapeSettled 0 True, ScrapeSettled 1 True,
                  Resumed 0, Resumed 1]\<rparr>"

definition example_options :: ScrapeOptions where
  "example_options =
     \<lparr>formats = None, screenshot = None, fullPageScreenshot = None, onlyMainContent = None\<rparr>"

definition example_allOptions :: AllScrapeOptions where
  "example_allOptions = \<lparr>limit = None, yes = None, includePaths = None, excludePaths = None\<rparr>"

section \<open>Single-slot store\<close>

text \<open>
  C9. The store is single-slot, last write wins: after two successful launches in a
  row, from any earlier content of the store, resolving the session id with no override
  gives the second session's id, the store holds exactly the second record, no exit code
  is raised, and the first id is no longer in the store (when the two ids differ).
\<close>

theorem launch_twice_keeps_second:
  "(let (f1, x1) = handleBrowserLaunch (LaunchOk i1 c1 l1) t1 file;
        (f2, x2) = handleBrowserLaunch (LaunchOk i2 c2 l2) t2 f1
    in x1 = None \<and> x2 = None
     \<and> getSessionId None f2 = Inr i2
     \<and> loadBrowserSession f2 = Some \<lparr>id_str = i2, cdpUrl = c2, createdAt = t2\<rparr>
     \<and> (i1 \<noteq> i2 \<longrightarrow> map_option id_str (loadBrowserSession f2) \<noteq> Some i1))"
  by (simp add: saveBrowserSession_def loadBrowserSession_def getSessionId_def)

theorem launch_twice_keeps_second_witness:
  "(let (f1, x1) = handleBrowserLaunch (LaunchOk ''s-1'' ''wss://a'' None) ''t1'' None;
        (f2, x2) = handleBrowserLaunch (LaunchOk ''s-2'' ''wss://b'' None) ''t2'' f1
    in getSessionId None f2 = Inr ''s-2''
     \<and> ''s-1'' \<noteq> ''s-2''
     \<and> map_option id_str (loadBrowserSession f2) \<noteq> Some ''s-1'')"
  using launch_twice_keeps_second [of "''s-1''" "''wss://a''" None "''t1''" None
      "''s-2''" "''wss://b''" None "''t2''"]
  by (simp add: saveBrowserSession_def loadBrowserSession_def getSessionId_def)

section \<open>Session expiry detection\<close>

lemma of_char_toLowerCase_char:
  "(of_char (toLowerCase_char c) :: nat) =
     (if 65 \<le> (of_char c :: nat) \<and> (of_char c :: nat) \<le> 90 then of_char c + 32 else of_char c)"
  by (simp add: toLowerCase_char_def Let_def)

lemma of_char_canonicalize:
  "(of_char (canonicalize c) :: nat) =
     (if 97 \<le> (of_char c :: nat) \<and> (of_char c :: nat) \<le> 122 then of_char c - 32 else of_char c)"
proof -
  have "(of_char c :: nat) < 256" by simp
  then show ?thesis by (auto simp: canonicalize_def Let_def)
qed

lemma canonicalize_toLowerCase_char:
  assumes "toLowerCase_char p = p"
  shows "canonicalize (toLowerCase_char c) = canonicalize p \<longleftrightarrow> toLowerCase_char c = p"
proof -
  let ?n = "of_char c :: nat" and ?m = "of_char p :: nat"
  have "(of_char (toLowerCase_char p) :: nat) = ?m" using assms by simp
  then have m: "\<not> (65 \<le> ?m \<and> ?m \<le> 90)"
    by (simp add: of_char_toLowerCase_char split: if_splits)
  have "canonicalize (toLowerCase_char c) = canonicalize p
      \<longleftrightarrow> (of_char (canonicalize (toLowerCase_char c)) :: nat) = of_char (canonicalize p)"
    by simp
  also have "\<dots> \<longleftrightarrow> (of_char (toLowerCase_char c) :: nat) = ?m"
    using m unfolding of_char_canonicalize of_char_toLowerCase_char
    by (auto simp del: of_char_eq_iff)
  also have "\<dots> \<longleftrightarrow> toLowerCase_char c = p" by simp
  finally show ?thesis .
qed


lemma toLowerCase_char_idem [simp]: "toLowerCase_char (toLowerCase_char c) = toLowerCase_char c"
proof -
  have "(of_char (toLowerCase_char (toLowerCase_char c)) :: nat) = of_char (toLowerCase_char c)"
    unfolding of_char_toLowerCase_char by simp
  then show ?thesis by simp
qed

lemma toLowerCase_idem [simp]: "toLowerCase (toLowerCase s) = toLowerCase s"
  by (simp add: toLowerCase_def)

lemma toLowerCase_append [simp]: "toLowerCase (a @ b) = toLowerCase a @ toLowerCase b"
  by (simp add: toLowerCase_def)

lemma toLowerCase_Cons [simp]: "toLowerCase (c # s) = toLowerCase_char c # toLowerCase s"
  by (simp add: toLowerCase_def)

lemma toLowerCase_Nil [simp]: "toLowerCase [] = []"
  by (simp add: toLowerCase_def)

lemma isLineTerminator_toLowerCase_char [simp]:
  "isLineTerminator (toLowerCase_char c) = isLineTerminator c"
proof -
  have "(of_char (toLowerCase_char c) :: nat) = 10 \<longleftrightarrow> (of_char c :: nat) = 10"
    and "(of_char (toLowerCase_char c) :: nat) = 13 \<longleftrightarrow> (of_char c :: nat) = 13"
    unfolding of_char_toLowerCase_char by auto
  moreover have "\<And>d. d = CHR 0x0A \<longleftrightarrow> (of_char d :: nat) = 10"
    "\<And>d. d = CHR 0x0D \<longleftrightarrow> (of_char d :: nat) = 13"
    by (auto simp flip: of_char_eq_iff [where ?'a = nat])
  ultimately show ?thesis by (simp add: isLineTerminator_def)
qed

lemma canonicalize_lowered:
  assumes "toLowerCase_char c = c" "toLowerCase_char p = p"
  shows "canonicalize c = canonicalize p \<longleftrightarrow> c = p"
  using canonicalize_toLowerCase_char [OF assms(2), of c] assms(1) by simp

lemma match_at_lit:
  assumes "toLowerCase w = w" "toLowerCase s = s"
  shows "match_at (map Chr w @ r) s \<longleftrightarrow> (\<exists>b. s = w @ b \<and> match_at r b)"
  using assms
proof (induction w arbitrary: s)
  case Nil
  then show ?case by simp
next
  case (Cons p w)
  show ?case
  proof (cases s)
    case Nil
    then show ?thesis by simp
  next
    case (Cons c s')
    with Cons.prems have "toLowerCase_char c = c" "toLowerCase_char p = p"
      "toLowerCase w = w" "toLowerCase s' = s'" by simp_all
    then show ?thesis
      using Cons.IH [of s'] Cons by (auto simp: canonicalize_lowered)
  qed
qed

lemma match_at_star:
  "match_at (AnyStar # r) s
     \<longleftrightarrow> (\<exists>m b. s = m @ b \<and> list_all (\<lambda>c. \<not> isLineTerminator c) m \<and> match_at r b)"
proof (induction s)
  case Nil
  then show ?case by simp
next
  case (Cons c s)
  show ?case
  proof
    assume "match_at (AnyStar # r) (c # s)"
    then consider "\<not> isLineTerminator c" "match_at (AnyStar # r) s" | "match_at r (c # s)"
      by auto
    then show "\<exists>m b. c # s = m @ b \<and> list_all (\<lambda>c. \<not> isLineTerminator c) m \<and> match_at r b"
    proof cases
      case 1
      then obtain m b where "s = m @ b" "list_all (\<lambda>c. \<not> isLineTerminator c) m" "match_at r b"
        using Cons.IH by blast
      with 1 have "c # s = (c # m) @ b \<and> list_all (\<lambda>c. \<not> isLineTerminator c) (c # m) \<and> match_at r b"
        by simp
      then show ?thesis by blast
    next
      case 2
      then have "c # s = [] @ (c # s) \<and> list_all (\<lambda>c. \<not> isLineTerminator c) [] \<and> match_at r (c # s)"
        by simp
      then show ?thesis by blast
    qed
  next
    assume "\<exists>m b. c # s = m @ b \<and> list_all (\<lambda>c. \<not> isLineTerminator c) m \<and> match_at r b"
    then obtain m b where mb: "c # s = m @ b" "list_all (\<lambda>c. \<not> isLineTerminator c) m" "match_at r b"
      by blast
    show "match_at (AnyStar # r) (c # s)"
    proof (cases m)
      case Nil
      with mb have "match_at r (c # s)" by simp
      then show ?thesis by simp
    next
      case (Cons c' m')
      with mb have "c' = c" "s = m' @ b" "\<not> isLineTerminator c" "list_all (\<lambda>c. \<not> isLineTerminator c) m'"
        by simp_all
      with mb(3) Cons.IH show ?thesis by auto
    qed
  qed
qed

lemma regex_test_iff:
  "regex_test alts s \<longleftrightarrow> (\<exists>pre rest. s = pre @ rest \<and> list_ex (\<lambda>p. match_at p rest) alts)"
proof (induction s)
  case Nil
  then show ?case by simp
next
  case (Cons c s)
  have "(\<exists>pre rest. c # s = pre @ rest \<and> list_ex (\<lambda>p. match_at p rest) alts)
     \<longleftrightarrow> list_ex (\<lambda>p. match_at p (c # s)) alts
        \<or> (\<exists>pre rest. s = pre @ rest \<and> list_ex (\<lambda>p. match_at p rest) alts)"
    by (auto simp: Cons_eq_append_conv)
  with Cons.IH show ?case by simp
qed


lemma lowered_suffix:
  assumes "toLowerCase s = s" "s = pre @ rest"
  shows "toLowerCase rest = rest"
  using assms by (simp add: toLowerCase_def map_eq_append_conv)

lemma lowered_words:
  "toLowerCase ''destroyed'' = ''destroyed''" "toLowerCase ''expired'' = ''expired''"
  "toLowerCase ''not found'' = ''not found''" "toLowerCase ''gone'' = ''gone''"
  "toLowerCase ''session'' = ''session''" "toLowerCase ''closed'' = ''closed''"
  by (simp_all add: toLowerCase_char_def)

lemma alt_lit:
  assumes "toLowerCase w = w" "toLowerCase rest = rest"
  shows "match_at (map Chr w) rest \<longleftrightarrow> (\<exists>post. rest = w @ post)"
  using match_at_lit [OF assms, of "[]"] by simp

lemma alt_gap:
  assumes w1: "toLowerCase w1 = w1" and w2: "toLowerCase w2 = w2"
      and rest: "toLowerCase rest = rest"
  shows "match_at (map Chr w1 @ [AnyStar] @ map Chr w2) rest
     \<longleftrightarrow> (\<exists>mid post. rest = w1 @ mid @ w2 @ post
            \<and> list_all (\<lambda>c. \<not> isLineTerminator c) mid)"
proof
  assume "match_at (map Chr w1 @ [AnyStar] @ map Chr w2) rest"
  then obtain b where b: "rest = w1 @ b" "match_at ([AnyStar] @ map Chr w2) b"
    using match_at_lit [OF w1 rest, of "[AnyStar] @ map Chr w2"] by blast
  then obtain mid b' where m: "b = mid @ b'" "list_all (\<lambda>c. \<not> isLineTerminator c) mid"
      "match_at (map Chr w2) b'"
    using match_at_star [of "map Chr w2" b] by auto
  have "toLowerCase b' = b'"
    using lowered_suffix [OF rest, of "w1 @ mid" b'] b(1) m(1) by simp
  then obtain post where "b' = w2 @ post"
    using alt_lit [OF w2, of b'] m(3) by blast
  with b(1) m(1,2) show "\<exists>mid post. rest = w1 @ mid @ w2 @ post
      \<and> list_all (\<lambda>c. \<not> isLineTerminator c) mid" by blast
next
  assume "\<exists>mid post. rest = w1 @ mid @ w2 @ post
      \<and> list_all (\<lambda>c. \<not> isLineTerminator c) mid"
  then obtain mid post where r: "rest = w1 @ mid @ w2 @ post"
      "list_all (\<lambda>c. \<not> isLineTerminator c) mid" by blast
  have "toLowerCase (w2 @ post) = w2 @ post"
    using lowered_suffix [OF rest, of "w1 @ mid" "w2 @ post"] r(1) by simp
  then have "match_at (map Chr w2) (w2 @ post)"
    using alt_lit [OF w2, of "w2 @ post"] by blast
  with r(2) have "match_at (AnyStar # map Chr w2) (mid @ w2 @ post)"
    unfolding match_at_star [of "map Chr w2" "mid @ w2 @ post"] by blast
  then have "match_at ([AnyStar] @ map Chr w2) (mid @ w2 @ post)" by simp
  then show "match_at (map Chr w1 @ [AnyStar] @ map Chr w2) rest"
    using match_at_lit [OF w1 rest, of "[AnyStar] @ map Chr w2"] r(1) by blast
qed

lemma expired_pattern_lowered:
  assumes "toLowerCase s = s"
  shows "regex_test expired_pattern s \<longleftrightarrow>
      (\<exists>pre post. s = pre @ ''destroyed'' @ post)
    \<or> (\<exists>pre post. s = pre @ ''expired'' @ post)
    \<or> (\<exists>pre post. s = pre @ ''not found'' @ post)
    \<or> (\<exists>pre post. s = pre @ ''gone'' @ post)
    \<or> (\<exists>pre mid post. s = pre @ ''session'' @ mid @ ''closed'' @ post
            \<and> list_all (\<lambda>c. \<not> isLineTerminator c) mid)"
proof -
  have alts: "list_ex (\<lambda>p. match_at p rest) expired_pattern \<longleftrightarrow>
      (\<exists>post. rest = ''destroyed'' @ post) \<or> (\<exists>post. rest = ''expired'' @ post)
    \<or> (\<exists>post. rest = ''not found'' @ post) \<or> (\<exists>post. rest = ''gone'' @ post)
    \<or> (\<exists>mid post. rest = ''session'' @ mid @ ''closed'' @ post
            \<and> list_all (\<lambda>c. \<not> isLineTerminator c) mid)"
    if "s = pre @ rest" for pre rest
  proof -
    have l: "toLowerCase rest = rest" using lowered_suffix [OF assms that] .
    show ?thesis
      unfolding expired_pattern_def list_ex_Cons_iff list_ex_Nil_iff
        alt_lit [OF lowered_words(1) l] alt_lit [OF lowered_words(2) l]
        alt_lit [OF lowered_words(3) l] alt_lit [OF lowered_words(4) l]
        alt_gap [OF lowered_words(5) lowered_words(6) l]
      by blast
  qed
  have "regex_test expired_pattern s \<longleftrightarrow>
      (\<exists>pre rest. s = pre @ rest \<and>
        ((\<exists>post. rest = ''destroyed'' @ post) \<or> (\<exists>post. rest = ''expired'' @ post)
       \<or> (\<exists>post. rest = ''not found'' @ post) \<or> (\<exists>post. rest = ''gone'' @ post)
       \<or> (\<exists>mid post. rest = ''session'' @ mid @ ''closed'' @ post
            \<and> list_all (\<lambda>c. \<not> isLineTerminator c) mid)))"
    unfolding regex_test_iff
    by (intro arg_cong [where f = Ex] ext conj_cong refl alts)
  also have "\<dots> \<longleftrightarrow>
      (\<exists>pre post. s = pre @ ''destroyed'' @ post)
    \<or> (\<exists>pre post. s = pre @ ''expired'' @ post)
    \<or> (\<exists>pre post. s = pre @ ''not found'' @ post)
    \<or> (\<exists>pre post. s = pre @ ''gone'' @ post)
    \<or> (\<exists>pre mid post. s = pre @ ''session'' @ mid @ ''closed'' @ post
            \<and> list_all (\<lambda>c. \<not> isLineTerminator c) mid)"
    by blast
  finally show ?thesis .
qed


lemma toLowerCase_eq_append:
  "toLowerCase t = a @ b \<longleftrightarrow> (\<exists>x y. t = x @ y \<and> toLowerCase x = a \<and> toLowerCase y = b)"
  unfolding toLowerCase_def map_eq_append_conv by blast

lemma no_terminator_toLowerCase:
  "list_all (\<lambda>c. \<not> isLineTerminator c) (toLowerCase m) = list_all (\<lambda>c. \<not> isLineTerminator c) m"
  by (induction m) simp_all

lemma lower_contains:
  "(\<exists>pre post. toLowerCase t = pre @ w @ post)
     \<longleftrightarrow> (\<exists>pre mid post. t = pre @ mid @ post \<and> toLowerCase mid = w)"
proof
  assume "\<exists>pre post. toLowerCase t = pre @ w @ post"
  then obtain pre post where "toLowerCase t = pre @ w @ post" by blast
  then obtain x y where xy: "t = x @ y" "toLowerCase y = w @ post"
    unfolding toLowerCase_eq_append by blast
  then obtain m q where "y = m @ q" "toLowerCase m = w"
    unfolding toLowerCase_eq_append by blast
  with xy(1) show "\<exists>pre mid post. t = pre @ mid @ post \<and> toLowerCase mid = w" by blast
next
  assume "\<exists>pre mid post. t = pre @ mid @ post \<and> toLowerCase mid = w"
  then obtain pre mid post where "t = pre @ mid @ post" "toLowerCase mid = w" by blast
  then have "toLowerCase t = toLowerCase pre @ w @ toLowerCase post" by simp
  then show "\<exists>pre post. toLowerCase t = pre @ w @ post" by blast
qed

lemma lower_gap:
  "(\<exists>pre mid post. toLowerCase t = pre @ w1 @ mid @ w2 @ post
        \<and> list_all (\<lambda>c. \<not> isLineTerminator c) mid)
     \<longleftrightarrow> (\<exists>pre a mid b post. t = pre @ a @ mid @ b @ post
        \<and> toLowerCase a = w1 \<and> toLowerCase b = w2
        \<and> list_all (\<lambda>c. \<not> isLineTerminator c) mid)"
proof
  assume "\<exists>pre mid post. toLowerCase t = pre @ w1 @ mid @ w2 @ post
        \<and> list_all (\<lambda>c. \<not> isLineTerminator c) mid"
  then obtain pre mid post where l: "toLowerCase t = pre @ w1 @ mid @ w2 @ post"
      "list_all (\<lambda>c. \<not> isLineTerminator c) mid" by blast
  from l(1) obtain x y where xy: "t = x @ y" "toLowerCase y = w1 @ mid @ w2 @ post"
    unfolding toLowerCase_eq_append by blast
  from xy(2) obtain a y1 where a: "y = a @ y1" "toLowerCase a = w1" "toLowerCase y1 = mid @ w2 @ post"
    unfolding toLowerCase_eq_append by blast
  from a(3) obtain m y2 where m: "y1 = m @ y2" "toLowerCase m = mid" "toLowerCase y2 = w2 @ post"
    unfolding toLowerCase_eq_append by blast
  from m(3) obtain b q where b: "y2 = b @ q" "toLowerCase b = w2"
    unfolding toLowerCase_eq_append by blast
  have "list_all (\<lambda>c. \<not> isLineTerminator c) m"
    using l(2) m(2) no_terminator_toLowerCase [of m] by simp
  moreover have "t = x @ a @ m @ b @ q" using xy(1) a(1) m(1) b(1) by simp
  ultimately show "\<exists>pre a mid b post. t = pre @ a @ mid @ b @ post
        \<and> toLowerCase a = w1 \<and> toLowerCase b = w2
        \<and> list_all (\<lambda>c. \<not> isLineTerminator c) mid"
    using a(2) b(2) by blast
next
  assume "\<exists>pre a mid b post. t = pre @ a @ mid @ b @ post
        \<and> toLowerCase a = w1 \<and> toLowerCase b = w2
        \<and> list_all (\<lambda>c. \<not> isLineTerminator c) mid"
  then obtain pre a mid b post where r: "t = pre @ a @ mid @ b @ post"
      "toLowerCase a = w1" "toLowerCase b = w2" "list_all (\<lambda>c. \<not> isLineTerminator c) mid"
    by blast
  then have "toLowerCase t = toLowerCase pre @ w1 @ toLowerCase mid @ w2 @ toLowerCase post"
    by simp
  moreover have "list_all (\<lambda>c. \<not> isLineTerminator c) (toLowerCase mid)"
    using r(4) no_terminator_toLowerCase [of mid] by simp
  ultimately show "\<exists>pre mid post. toLowerCase t = pre @ w1 @ mid @ w2 @ post
        \<and> list_all (\<lambda>c. \<not> isLineTerminator c) mid" by blast
qed

lemma expired_iff:
  "isSessionExpiredError e \<longleftrightarrow>
      thrown_status e = Some 410 \<or> thrown_status e = Some 404
    \<or> (\<exists>pre mid post. thrown_text e = pre @ mid @ post \<and> toLowerCase mid = ''destroyed'')
    \<or> (\<exists>pre mid post. thrown_text e = pre @ mid @ post \<and> toLowerCase mid = ''expired'')
    \<or> (\<exists>pre mid post. thrown_text e = pre @ mid @ post \<and> toLowerCase mid = ''not found'')
    \<or> (\<exists>pre mid post. thrown_text e = pre @ mid @ post \<and> toLowerCase mid = ''gone'')
    \<or> (\<exists>pre a mid b post. thrown_text e = pre @ a @ mid @ b @ post
          \<and> toLowerCase a = ''session'' \<and> toLowerCase b = ''closed''
          \<and> list_all (\<lambda>c. \<not> isLineTerminator c) mid)"
proof -
  have "toLowerCase (toLowerCase (thrown_text e)) = toLowerCase (thrown_text e)" by simp
  note expired_pattern_lowered [OF this, unfolded lower_contains lower_gap]
  then show ?thesis
    unfolding isSessionExpiredError_def Let_def by auto
qed


lemma expired_examples:
  "regex_test expired_pattern (toLowerCase ''Session destroyed'')"
  "\<not> regex_test expired_pattern (toLowerCase ''Invalid code'')"
  by code_simp+

text \<open>
  C6. \<open>isSessionExpiredError\<close> holds iff the status is 410 or 404, or the message
  contains, in any mix of upper and lower case, one of the words "destroyed", "expired",
  "not found", "gone", or "session" followed on the same line by "closed". An error
  with status 404, and one with the message "Session destroyed", are expired; one with
  status 200 and the message "Invalid code" is not.
\<close>

theorem isSessionExpiredError_spec:
  "(isSessionExpiredError e \<longleftrightarrow>
      thrown_status e = Some 410 \<or> thrown_status e = Some 404
    \<or> (\<exists>pre mid post. thrown_text e = pre @ mid @ post \<and> toLowerCase mid = ''destroyed'')
    \<or> (\<exists>pre mid post. thrown_text e = pre @ mid @ post \<and> toLowerCase mid = ''expired'')
    \<or> (\<exists>pre mid post. thrown_text e = pre @ mid @ post \<and> toLowerCase mid = ''not found'')
    \<or> (\<exists>pre mid post. thrown_text e = pre @ mid @ post \<and> toLowerCase mid = ''gone'')
    \<or> (\<exists>pre a mid b post. thrown_text e = pre @ a @ mid @ b @ post
          \<and> toLowerCase a = ''session'' \<and> toLowerCase b = ''closed''
          \<and> list_all (\<lambda>c. \<not> isLineTerminator c) mid))
   \<and> isSessionExpiredError (ErrorObject m (Some 404))
   \<and> isSessionExpiredError (ErrorObject ''Session destroyed'' st)
   \<and> \<not> isSessionExpiredError (ErrorObject ''Invalid code'' (Some 200))"
  using expired_iff [of e] expired_examples
  by (simp add: isSessionExpiredError_def)

theorem isSessionExpiredError_spec_witness:
  "isSessionExpiredError (ErrorObject ''Browser session was closed'' None)
   \<and> isSessionExpiredError (ErrorObject ''gone'' (Some 404))
   \<and> \<not> isSessionExpiredError (ErrorObject ''Invalid code'' (Some 200))"
proof -
  have d: "''Browser session was closed'' = ''Browser '' @ ''session'' @ '' was '' @ ''closed'' @ []"
    by simp
  have t: "list_all (\<lambda>c. \<not> isLineTerminator c) '' was ''"
    by (simp add: isLineTerminator_def)
  from d lowered_words(5) lowered_words(6) t
  have "\<exists>pre a mid b post.
      thrown_text (ErrorObject ''Browser session was closed'' None) = pre @ a @ mid @ b @ post
      \<and> toLowerCase a = ''session'' \<and> toLowerCase b = ''closed''
      \<and> list_all (\<lambda>c. \<not> isLineTerminator c) mid"
    unfolding thrown_text.simps by blast
  then show ?thesis
    using isSessionExpiredError_spec [of "ErrorObject ''Browser session was closed'' None" "''gone''" None]
    by blast
qed

section \<open>Expired sessions and the stored record\<close>

text \<open>
  C7. When the remote call is made (with the resolved id \<open>sid\<close>) and rejects with an
  error classified as expired, the stored record is cleared when no override was passed
  and left as it was when one was; in both cases the handler exits with code 1 and the
  one line it writes names the session id and says how to launch a new session.
\<close>

theorem expired_clears_only_stored:
  assumes "isSessionExpiredError e" and "getSessionId session file = Inr sid"
  shows "(let r = handleBrowserExecute session (ExecRejected e) file in
      called_with r = Some sid
    \<and> file_after r = (if truthy_opt session then file else None)
    \<and> exit_code r = Some 1
    \<and> stderr r =
        [''Error: Session '' @ (if sid = [] then ''unknown'' else sid) @
         '' has expired or been destroyed.'' @ [CHR 0x0A] @
         ''The session may have exceeded its TTL or been closed.'' @ [CHR 0x0A] @
         ''Start a new session with: firecrawl browser launch''])"
proof (cases "truthy_opt session")
  case True
  with assms(2) have "session = Some sid" "sid \<noteq> []"
    by (cases session; simp add: getSessionId_def)+
  with assms show ?thesis
    by (simp add: handleBrowserExecute_def execute_catch_def expired_message_def
        reported_session_id_def Let_def)
next
  case False
  with assms(2) obtain stored where "file = Some stored" "id_str stored = sid"
    by (auto simp: getSessionId_def loadBrowserSession_def split: option.splits)
  with assms False show ?thesis
    by (simp add: handleBrowserExecute_def execute_catch_def expired_message_def
        reported_session_id_def loadBrowserSession_def clearBrowserSession_def Let_def)
qed

theorem expired_clears_only_stored_witness:
  "isSessionExpiredError (ErrorObject ''Session destroyed'' None)
   \<and> getSessionId None (Some \<lparr>id_str = ''s-1'', cdpUrl = ''wss://a'', createdAt = ''t''\<rparr>) = Inr ''s-1''
   \<and> file_after (handleBrowserExecute None (ExecRejected (ErrorObject ''Session destroyed'' None))
        (Some \<lparr>id_str = ''s-1'', cdpUrl = ''wss://a'', createdAt = ''t''\<rparr>)) = None
   \<and> getSessionId (Some ''s-2'') (Some \<lparr>id_str = ''s-1'', cdpUrl = ''wss://a'', createdAt = ''t''\<rparr>) = Inr ''s-2''
   \<and> file_after (handleBrowserExecute (Some ''s-2'') (ExecRejected (ErrorObject ''Session destroyed'' None))
        (Some \<lparr>id_str = ''s-1'', cdpUrl = ''wss://a'', createdAt = ''t''\<rparr>))
       = Some \<lparr>id_str = ''s-1'', cdpUrl = ''wss://a'', createdAt = ''t''\<rparr>"
proof -
  let ?f = "Some \<lparr>id_str = ''s-1'', cdpUrl = ''wss://a'', createdAt = ''t''\<rparr>"
  let ?e = "ErrorObject ''Session destroyed'' None"
  have e: "isSessionExpiredError ?e"
    using expired_examples(1) by (simp add: isSessionExpiredError_def)
  have g1: "getSessionId None ?f = Inr ''s-1''"
    and g2: "getSessionId (Some ''s-2'') ?f = Inr ''s-2''"
    by (simp_all add: getSessionId_def loadBrowserSession_def)
  show ?thesis
    using e g1 g2 expired_clears_only_stored [OF e g1] expired_clears_only_stored [OF e g2]
    by (simp add: Let_def)
qed

section \<open>Injection of the CDP flag\<close>

lemma split_space_not_Nil [simp]: "split_space s \<noteq> []"
  by (induction s) (auto split: list.splits)




lemma isWhitespace_space [simp]: "isWhitespace CHR '' ''"
  by (simp add: isWhitespace_def)








section \<open>Path filters\<close>

lemma apply_flag_filters_given:
  "apply_flag_filters pathname incl excl us =
     filter (\<lambda>u. (given incl = [] \<or> include_keeps pathname (given incl) u)
              \<and> (given excl = [] \<or> exclude_keeps pathname (given excl) u)) us"
  by (cases incl; cases excl) (auto simp: apply_flag_filters_def Let_def intro: filter_cong)

lemma include_keeps_iff:
  "include_keeps pathname ps u \<longleftrightarrow> (\<exists>p \<in> set ps. \<exists>path. pathname u = Some path \<and> prefix p path)"
  by (auto simp: include_keeps_def startsWith_def list_ex_iff split: option.splits)

lemma exclude_keeps_iff:
  "exclude_keeps pathname ps u \<longleftrightarrow> \<not> (\<exists>p \<in> set ps. \<exists>path. pathname u = Some path \<and> prefix p path)"
  by (auto simp: exclude_keeps_def startsWith_def list_ex_iff split: option.splits)

text \<open>
  C2. With the filters given as flags, the URLs that remain are exactly those whose path
  starts with some include prefix (or the include list is empty) and with no exclude
  prefix (or the exclude list is empty); order and repetitions are kept. A URL has a
  path when \<open>new URL\<close> accepts it.
\<close>

theorem flag_filters_survive:
  "apply_flag_filters pathname incl excl us =
     filter (\<lambda>u. (given incl = []
                    \<or> (\<exists>p \<in> set (given incl). \<exists>path. pathname u = Some path \<and> prefix p path))
              \<and> (given excl = []
                    \<or> \<not> (\<exists>p \<in> set (given excl). \<exists>path. pathname u = Some path \<and> prefix p path))) us"
  unfolding apply_flag_filters_given include_keeps_iff exclude_keeps_iff ..

theorem flag_filters_survive_witness:
  "apply_flag_filters (\<lambda>u. if u = ''bad'' then None else Some (drop 9 u))
      (Some [''/a'']) (Some [''/a/x''])
      [''https://h/a'', ''https://h/b'', ''https://h/a/x'', ''bad'', ''https://h/a/y'']
   = [''https://h/a'', ''https://h/a/y'']"
proof -
  let ?pn = "\<lambda>u. if u = ''bad'' then None else Some (drop 9 u)"
  let ?us = "[''https://h/a'', ''https://h/b'', ''https://h/a/x'', ''bad'', ''https://h/a/y'']"
  show ?thesis
    unfolding flag_filters_survive [of ?pn "Some [''/a'']" "Some [''/a/x'']" ?us]
    by simp
qed

text \<open>
  C10. A URL that \<open>new URL\<close> rejects is dropped by the include filter and kept by the
  exclude filter, so it remains iff the include list is empty.
\<close>

theorem unparseable_url_asymmetry:
  assumes "pathname u = None"
  shows "\<not> include_keeps pathname ps u \<and> exclude_keeps pathname ps u
       \<and> (u \<in> set (apply_flag_filters pathname incl excl us)
            \<longleftrightarrow> u \<in> set us \<and> given incl = [])"
  using assms
  by (auto simp: apply_flag_filters_given include_keeps_def exclude_keeps_def)

theorem unparseable_url_asymmetry_witness:
  "(\<lambda>u. if u = ''bad'' then None else Some (drop 9 u)) ''bad'' = None
   \<and> ''bad'' \<in> set (apply_flag_filters (\<lambda>u. if u = ''bad'' then None else Some (drop 9 u))
        None (Some [''/a'']) [''https://h/a'', ''bad''])
   \<and> ''bad'' \<notin> set (apply_flag_filters (\<lambda>u. if u = ''bad'' then None else Some (drop 9 u))
        (Some [''/a'']) None [''https://h/a'', ''bad''])"
proof -
  let ?pn = "\<lambda>u. if u = ''bad'' then None else Some (drop 9 u)"
  show ?thesis
    using unparseable_url_asymmetry [of ?pn "''bad''" "[]" None "Some [''/a'']" "[''https://h/a'', ''bad'']"]
      unparseable_url_asymmetry [of ?pn "''bad''" "[]" "Some [''/a'']" None "[''https://h/a'', ''bad'']"]
    by simp
qed

section \<open>Wizard or flags\<close>

lemma enters_wizard_iff:
  "enters_wizard options allOptions tty \<longleftrightarrow>
     tty \<and> \<not> truthy_bool (yes allOptions) \<and> limit allOptions = None
     \<and> includePaths allOptions = None \<and> excludePaths allOptions = None
     \<and> \<not> truthy_bool (screenshot options) \<and> \<not> truthy_bool (fullPageScreenshot options)
     \<and> \<not> truthy_bool (onlyMainContent options)
     \<and> (formats options = None \<or> formats options = Some []
          \<or> (\<exists>fs. formats options = Some (''markdown'' # fs)))"
  by (cases "formats options"; cases "the (formats options)")
     (auto simp: enters_wizard_def hasExplicitFlags_def)

text \<open>
  C4. The detection looks at the first format only: with the explicit selection
  \<open>markdown,links\<close> and nothing else, on a terminal, the wizard is entered, although
  the selection is not the default.
\<close>

theorem wizard_despite_explicit_formats:
  "enters_wizard
     \<lparr>formats = Some [''markdown'', ''links''], screenshot = None,
      fullPageScreenshot = None, onlyMainContent = None\<rparr>
     \<lparr>limit = None, yes = None, includePaths = None, excludePaths = None\<rparr>
     True
   \<and> \<not> hasExplicitFlags
     \<lparr>formats = Some [''markdown'', ''links''], screenshot = None,
      fullPageScreenshot = None, onlyMainContent = None\<rparr>
     \<lparr>limit = None, yes = None, includePaths = None, excludePaths = None\<rparr>"
  by (simp add: enters_wizard_def hasExplicitFlags_def)

theorem wizard_despite_explicit_formats_witness:
  "enters_wizard
     \<lparr>formats = Some [''markdown'', ''links''], screenshot = None,
      fullPageScreenshot = None, onlyMainContent = None\<rparr>
     \<lparr>limit = None, yes = None, includePaths = None, excludePaths = None\<rparr>
     True"
  using wizard_despite_explicit_formats by (rule conjunct1)

section \<open>The worker pool\<close>



















section \<open>Exit codes of the orchestrator\<close>




lemma map_phase_schedule: "map_phase (env\<lparr>schedule := s\<rparr>) siteUrl = map_phase env siteUrl"
  by (simp add: map_phase_def Let_def)

lemma filter_phase_schedule:
  "filter_phase (env\<lparr>schedule := s\<rparr>) options allOptions found
     = filter_phase env options allOptions found"
  by (simp add: filter_phase_def)

lemma selected_urls_schedule [simp]:
  "selected_urls (env\<lparr>schedule := s\<rparr>) siteUrl options allOptions
     = selected_urls env siteUrl options allOptions"
  unfolding selected_urls_def map_phase_schedule filter_phase_schedule ..







lemma credits_short_schedule: "credits_short (env\<lparr>schedule := s\<rparr>) us = credits_short env us"
  by (simp add: credits_short_def)

lemma preflight_phase_schedule [simp]:
  "preflight_phase (env\<lparr>schedule := s\<rparr>) allOptions us lines
     = preflight_phase env allOptions us lines"
  by (simp add: preflight_phase_def Let_def credits_short_schedule cong: option.case_cong)


lemma selected_urls_nonempty:
  assumes "selected_urls env siteUrl options allOptions = Inr (us, lines)"
  shows "us \<noteq> []"
proof -
  obtain found l0 where m: "map_phase env siteUrl = Inr (found, l0)"
    using assms by (cases "map_phase env siteUrl") (auto simp: selected_urls_def)
  let ?f = "filter_phase env options allOptions found"
  have f: "?f \<noteq> []" and us: "us = apply_limit (limit allOptions) ?f"
    using assms m by (auto simp: selected_urls_def Let_def split: if_splits)
  show ?thesis
  proof (cases "limit allOptions")
    case None
    with f us show ?thesis by (simp add: apply_limit_def)
  next
    case (Some l)
    show ?thesis
    proof (cases "l > 0")
      case True
      then have "nat l > 0" by simp
      with f us Some True show ?thesis by (cases "nat l") (auto simp: apply_limit_def)
    next
      case False
      with f us Some show ?thesis by (simp add: apply_limit_def)
    qed
  qed
qed



lemma credits_short_exit:
  assumes "selected_urls env siteUrl options allOptions = Inr (us, lines)"
    "credits_short env us"
  shows "handleAllScrapeCommand env siteUrl options allOptions
     = Some \<lparr>exit_status = Some 1,
          err_lines = lines @ [''Error: Not enough credits. Need '' @ show_nat (length us)
             @ '', have '' @ show_int (the (credits_remaining (getStatus env))) @ ''.''],
          scrape_calls = []\<rparr>"
proof -
  have "preflight_phase env allOptions us lines
      = Inl (1, lines @ [''Error: Not enough credits. Need '' @ show_nat (length us)
             @ '', have '' @ show_int (the (credits_remaining (getStatus env))) @ ''.''])"
    using assms(2) by (simp add: preflight_phase_def Let_def)
  with assms(1) show ?thesis by (simp add: handleAllScrapeCommand_def)
qed






lemma show_examples: "show_nat 50 = ''50''" "show_int 30 = ''30''"
  by code_simp+

text \<open>
  C5. When the account reports fewer credits than there are URLs selected for scraping,
  the run ends in the preflight phase: exit code 1, no call of \<open>executeScrape\<close>, and the
  line written names the number of URLs and the number of credits (as in "Need 50,
  have 30.").
\<close>

theorem insufficient_credits_fail_fast:
  assumes "selected_urls env siteUrl options allOptions = Inr (us, lines)"
    and "credits_remaining (getStatus env) = Some remaining"
    and "int (length us) > remaining"
  shows "handleAllScrapeCommand env siteUrl options allOptions
           = Some \<lparr>exit_status = Some 1,
                err_lines = lines @ [''Error: Not enough credits. Need '' @ show_nat (length us)
                   @ '', have '' @ show_int remaining @ ''.''],
                scrape_calls = []\<rparr>
       \<and> map_option process_exit_code (handleAllScrapeCommand env siteUrl options allOptions) = Some 1
       \<and> show_nat 50 = ''50'' \<and> show_int 30 = ''30''"
proof -
  have "credits_short env us" using assms(2,3) by (simp add: credits_short_def)
  note h = credits_short_exit [OF assms(1) this, unfolded assms(2) option.sel]
  have "map_option process_exit_code (handleAllScrapeCommand env siteUrl options allOptions) = Some 1"
    unfolding h by (simp add: process_exit_code_def)
  with h show_examples show ?thesis by (intro conjI)
qed

theorem insufficient_credits_fail_fast_witness:
  "selected_urls (example_env\<lparr>getStatus := \<lparr>credits_remaining = Some 2, concurrency_max = Some 2\<rparr>\<rparr>)
      ''https://h'' example_options example_allOptions
     = Inr ([''https://h/a'', ''https://h/b'', ''https://h/c''],
            [''Mapping https://h...'' @ [CHR 0x0A], ''Found 3 pages on https://h'' @ [CHR 0x0A]])
   \<and> credits_remaining (getStatus
        (example_env\<lparr>getStatus := \<lparr>credits_remaining = Some 2, concurrency_max = Some 2\<rparr>\<rparr>)) = Some 2
   \<and> int (length [''https://h/a'', ''https://h/b'', ''https://h/c'']) > 2
   \<and> map_option process_exit_code
        (handleAllScrapeCommand
          (example_env\<lparr>getStatus := \<lparr>credits_remaining = Some 2, concurrency_max = Some 2\<rparr>\<rparr>)
          ''https://h'' example_options example_allOptions) = Some 1"
proof -
  let ?env = "example_env\<lparr>getStatus := \<lparr>credits_remaining = Some 2, concurrency_max = Some 2\<rparr>\<rparr>"
  have s: "selected_urls ?env ''https://h'' example_options example_allOptions
     = Inr ([''https://h/a'', ''https://h/b'', ''https://h/c''],
            [''Mapping https://h...'' @ [CHR 0x0A], ''Found 3 pages on https://h'' @ [CHR 0x0A]])"
    by code_simp
  have c: "credits_remaining (getStatus ?env) = Some 2" by simp
  have n: "int (length [''https://h/a'', ''https://h/b'', ''https://h/c'']) > 2" by simp
  from insufficient_credits_fail_fast [OF s c n]
  have "map_option process_exit_code
        (handleAllScrapeCommand ?env ''https://h'' example_options example_allOptions) = Some 1"
    by (rule conjunct2 [THEN conjunct1])
  with s c n show ?thesis by (intro conjI)
qed



end
